theory Spec2Isabelle
  imports Main "HOL-Library.Multiset"
begin

section \<open>The RIDE-D event sink (ride\_d\_event\_sink.py)\<close>

text \<open>
  A shallow embedding of the class \<open>RideDEventSink\<close>. The object \<open>self\<close> is the record
  \<open>sink\<close>; every method takes the sink and returns its result together with the updated
  sink. A Python exception that leaves a method is the left injection of a sum.
  The collaborators that live outside the repository (the RideD middleware with its
  topology manager, the CoAP client, the event encoder) and the constants of
  \<open>seismic_alert_common\<close> are the fields of the record \<open>env\<close>: each call of a collaborator
  either returns or raises, and the sink records the calls it made.
\<close>

subsection \<open>Data\<close>

type_synonym topic = string
type_synonym address = string
type_synonym node = string
type_synonym route = "string list"
type_synonym flow_rule = string

text \<open>
  Python exceptions, by class. \<open>IOErrorSubclass c\<close> is an instance of a class \<open>c\<close> derived
  from \<open>IOError\<close> (\<open>socket.error\<close>, \<open>socket.timeout\<close>); \<open>OtherException c\<close> is an instance
  of a class \<open>c\<close> that is neither one of the named classes nor derived from \<open>IOError\<close>.
\<close>

datatype exn =
    IOError
  | IOErrorSubclass string
  | KeyError
  | AssertionError
  | AttributeError
  | OtherException string

text \<open>\<open>isinstance(e, IOError)\<close>, the test of the clause \<open>except IOError\<close>: it catches the
  instances of \<open>IOError\<close> and of every class derived from it. The clause
  \<open>except BaseException\<close> catches every exception.\<close>

fun isinstance_IOError :: "exn \<Rightarrow> bool" where
  "isinstance_IOError IOError = True"
| "isinstance_IOError (IOErrorSubclass c) = True"
| "isinstance_IOError KeyError = False"
| "isinstance_IOError AssertionError = False"
| "isinstance_IOError AttributeError = False"
| "isinstance_IOError (OtherException c) = False"

record event =
  topic :: topic
  data :: string

text \<open>One call \<open>coap_client.put(path=..., payload=..., callback=...)\<close> with the
  destination \<open>coap_client.server\<close> set just before it.\<close>

record request =
  server :: "address \<times> int"
  path :: string
  payload :: string

text \<open>The request a subscriber POSTs to the subscription endpoint.\<close>

record coap_request =
  source :: "address \<times> int"
  req_payload :: string

text \<open>The field \<open>self.rided\<close>: \<open>None\<close> when multicast is off, the dict of constructor
  parameters until \<open>on_start\<close> has run (\<open>BUILD_RIDED_IN_INIT\<close> is \<open>False\<close>), the RideD
  object afterwards.\<close>

datatype rided = NoRideD | RideDParams | RideDBuilt

text \<open>Records written with \<open>log.warning\<close> and \<open>log.error\<close> (debug and info records are
  not kept).\<close>

datatype log_entry =
    WarnPublisherRoute node node exn
  | WarnSubscriberRoute string node exn
  | ErrorSend exn

record env =
  SEISMIC_ALERT_TOPIC :: topic
  encode_event :: "event \<Rightarrow> string"
  put :: "request \<Rightarrow> exn option"
  new_RideD :: "exn option"
  dpid :: node
  get_best_multicast_address :: "topic \<Rightarrow> exn + address"
  get_host_by_ip :: "address \<Rightarrow> exn + node"
  get_path :: "node \<Rightarrow> node \<Rightarrow> exn + route"
  add_subscriber :: "node \<Rightarrow> topic \<Rightarrow> exn option"
  build_flow_rules_from_path :: "route \<Rightarrow> exn + flow_rule list"
  install_flow_rule :: "flow_rule \<Rightarrow> exn option"
  set_publisher_route :: "node \<Rightarrow> route \<Rightarrow> exn option"

text \<open>
  The sink. \<open>subscribers\<close> is the dict from topic to a set of host addresses; the set is
  kept as the list of its elements, so that the loop over it in \<open>send_event\<close> has an order
  (Python leaves the order of a set open; the list fixes one, and no theorem below
  depends on which). The last six fields record effects: the number of \<open>encode_event\<close>
  calls, the \<open>put\<close> calls made on the CoAP client (the one that raised included), the
  \<open>add_subscriber\<close>, \<open>install_flow_rule\<close> and \<open>set_publisher_route\<close> calls that returned,
  and the log.
\<close>

record sink =
  subscribers :: "topic \<rightharpoonup> address list"
  port :: int
  topics_to_sink :: "topic set"
  maintenance_interval :: nat
  use_multicast :: bool
  rided :: rided
  publishers :: "node list option"
  timers :: "nat list"
  encoded :: nat
  puts :: "request list"
  rided_subscribers :: "(node \<times> topic) list"
  installed_rules :: "flow_rule list"
  publisher_routes :: "(node \<times> route) list"
  logged :: "log_entry list"

subsection \<open>Construction\<close>

definition init :: "topic list \<Rightarrow> bool \<Rightarrow> int \<Rightarrow> nat \<Rightarrow> node list option \<Rightarrow> sink" where
  "init tts multicast p interval pubs =
     \<lparr>subscribers = Map.empty,
      port = p,
      topics_to_sink = set tts,
      maintenance_interval = interval,
      use_multicast = multicast,
      rided = (if \<not> multicast then NoRideD else RideDParams),
      publishers = pubs,
      timers = [],
      encoded = 0,
      puts = [],
      rided_subscribers = [],
      installed_rules = [],
      publisher_routes = [],
      logged = []\<rparr>"

subsection \<open>The subscriber registry\<close>

text \<open>\<open>d.setdefault(topic, set())\<close>: the set stored under the key, after storing an
  empty one when the key is new.\<close>

definition setdefault ::
  "(topic \<rightharpoonup> address list) \<Rightarrow> topic \<Rightarrow> address list \<times> (topic \<rightharpoonup> address list)" where
  "setdefault d t = (case d t of None \<Rightarrow> ([], d(t \<mapsto> [])) | Some xs \<Rightarrow> (xs, d))"

text \<open>\<open>set.add\<close>: nothing happens when the element is there.\<close>

definition set_add :: "address list \<Rightarrow> address \<Rightarrow> address list" where
  "set_add xs h = (if h \<in> set xs then xs else xs @ [h])"

text \<open>\<open>self.subscribers.setdefault(topic, set()).add(host)\<close>: the set is changed in
  place, so the dict sees the addition.\<close>

definition registry_add ::
  "(topic \<rightharpoonup> address list) \<Rightarrow> topic \<Rightarrow> address \<Rightarrow> (topic \<rightharpoonup> address list)" where
  "registry_add d t h = (case setdefault d t of (xs, d') \<Rightarrow> d'(t \<mapsto> set_add xs h))"

text \<open>\<open>self.subscribers.get(topic, [])\<close>.\<close>

definition subscribers_get :: "sink \<Rightarrow> topic \<Rightarrow> address list" where
  "subscribers_get s t = (case subscribers s t of None \<Rightarrow> [] | Some xs \<Rightarrow> xs)"

definition warn :: "log_entry \<Rightarrow> sink \<Rightarrow> sink" where
  "warn w s = s\<lparr>logged := logged s @ [w]\<rparr>"

subsection \<open>process\_subscription\<close>

text \<open>
  The host is added to the registry first. With a RideD object (taken as true in the
  test \<open>if self.rided\<close>, as an object is by default), the host is then resolved and a path
  to the server looked for; any exception there is caught, logged, and the result is
  \<open>False\<close>. While \<open>self.rided\<close> is still the parameter dict, the attribute
  \<open>topology_manager\<close> is missing, and so is \<open>dpid\<close> in the handler's log message: the
  AttributeError raised in the handler leaves the method.
\<close>

definition process_subscription ::
  "env \<Rightarrow> topic \<Rightarrow> address \<Rightarrow> sink \<Rightarrow> (exn + bool) \<times> sink" where
  "process_subscription env t h s =
     (let s1 = s\<lparr>subscribers := registry_add (subscribers s) t h\<rparr> in
      case rided s1 of
        NoRideD \<Rightarrow> (Inr True, s1)
      | RideDParams \<Rightarrow> (Inl AttributeError, s1)
      | RideDBuilt \<Rightarrow>
          (case get_host_by_ip env h of
             Inl e \<Rightarrow> (Inr False, warn (WarnSubscriberRoute h (dpid env) e) s1)
           | Inr n \<Rightarrow>
               (case get_path env n (dpid env) of
                  Inl e \<Rightarrow> (Inr False, warn (WarnSubscriberRoute n (dpid env) e) s1)
                | Inr _ \<Rightarrow>
                    (case add_subscriber env n (SEISMIC_ALERT_TOPIC env) of
                       Some e \<Rightarrow> (Inr False, warn (WarnSubscriberRoute n (dpid env) e) s1)
                     | None \<Rightarrow>
                         (Inr True,
                          s1\<lparr>rided_subscribers :=
                               rided_subscribers s1 @ [(n, SEISMIC_ALERT_TOPIC env)]\<rparr>)))))"

subsection \<open>The CoAP subscription endpoint\<close>

text \<open>The closure \<open>__process_coap_subscription\<close>: it returns the resource (\<open>True\<close> here)
  or \<open>False\<close>.\<close>

definition process_coap_subscription ::
  "env \<Rightarrow> coap_request \<Rightarrow> sink \<Rightarrow> (exn + bool) \<times> sink" where
  "process_coap_subscription env req s =
     (case source req of (host, prt) \<Rightarrow>
        let t = req_payload req in
        if t \<noteq> SEISMIC_ALERT_TOPIC env then (Inl AssertionError, s)
        else (case process_subscription env t host s of
                (Inl e, s') \<Rightarrow> (Inl e, s')
              | (Inr ok, s') \<Rightarrow> (if ok then (Inr True, s') else (Inr False, s'))))"

subsection \<open>check\_available\<close>

definition check_available :: "sink \<Rightarrow> event \<Rightarrow> bool" where
  "check_available s ev \<longleftrightarrow> topic ev \<in> topics_to_sink s \<and> topic ev \<in> dom (subscribers s)"

subsection \<open>Sending\<close>

text \<open>\<open>__sendto\<close>: the destination is set and the message PUT under \<open>/events/<topic>\<close>.
  The response callback only logs.\<close>

definition sendto ::
  "env \<Rightarrow> string \<Rightarrow> topic \<Rightarrow> address \<Rightarrow> int option \<Rightarrow> sink \<Rightarrow> exn option \<times> sink" where
  "sendto env msg t a p s =
     (let p' = (case p of None \<Rightarrow> port s | Some q \<Rightarrow> q);
          r = \<lparr>server = (a, p'), path = ''/events/'' @ t, payload = msg\<rparr>
      in (put env r, s\<lparr>puts := puts s @ [r]\<rparr>))"

text \<open>The loop \<open>for address in self.subscribers.get(topic, [])\<close>: an exception raised by
  one send leaves the loop.\<close>

fun sendto_each ::
  "env \<Rightarrow> string \<Rightarrow> topic \<Rightarrow> address list \<Rightarrow> sink \<Rightarrow> exn option \<times> sink" where
  "sendto_each env msg t [] s = (None, s)"
| "sendto_each env msg t (a # as) s =
     (case sendto env msg t a None s of
        (Some e, s') \<Rightarrow> (Some e, s')
      | (None, s') \<Rightarrow> sendto_each env msg t as s')"

definition send_event :: "env \<Rightarrow> event \<Rightarrow> sink \<Rightarrow> (exn + bool) \<times> sink" where
  "send_event env ev s =
     (let t = topic ev;
          encoded_event = encode_event env ev;
          s0 = s\<lparr>encoded := encoded s + 1\<rparr>;
          tried =
            (if use_multicast s0 then
               (case rided s0 of
                  NoRideD \<Rightarrow> (Some AssertionError, s0)
                | RideDParams \<Rightarrow> (Some AttributeError, s0)
                | RideDBuilt \<Rightarrow>
                    (case get_best_multicast_address env t of
                       Inl e \<Rightarrow> (Some e, s0)
                     | Inr address \<Rightarrow> sendto env encoded_event t address None s0))
             else
               sendto_each env encoded_event t (subscribers_get s0 t) s0)
      in case tried of
           (None, s1) \<Rightarrow> (Inr True, s1)
         | (Some e, s1) \<Rightarrow>
             (if isinstance_IOError e then (Inr False, warn (ErrorSend e) s1) else (Inl e, s1)))"

subsection \<open>on\_start: static routes for the publishers\<close>

text \<open>\<open>for r in flow_rules: install_flow_rule(r)\<close>.\<close>

fun install_each :: "env \<Rightarrow> flow_rule list \<Rightarrow> sink \<Rightarrow> exn option \<times> sink" where
  "install_each env [] s = (None, s)"
| "install_each env (r # rs) s =
     (case install_flow_rule env r of
        Some e \<Rightarrow> (Some e, s)
      | None \<Rightarrow> install_each env rs (s\<lparr>installed_rules := installed_rules s @ [r]\<rparr>))"

text \<open>The body of the loop over the publishers: a \<open>try\<close> whose handler catches every
  exception and logs a warning.\<close>

definition set_static_route :: "env \<Rightarrow> node \<Rightarrow> sink \<Rightarrow> sink" where
  "set_static_route env pub s =
     (case get_path env pub (dpid env) of
        Inl e \<Rightarrow> warn (WarnPublisherRoute pub (dpid env) e) s
      | Inr route \<Rightarrow>
          (case build_flow_rules_from_path env route of
             Inl e \<Rightarrow> warn (WarnPublisherRoute pub (dpid env) e) s
           | Inr flow_rules \<Rightarrow>
               (case install_each env flow_rules s of
                  (Some e, s1) \<Rightarrow> warn (WarnPublisherRoute pub (dpid env) e) s1
                | (None, s1) \<Rightarrow>
                    (case set_publisher_route env pub route of
                       Some e \<Rightarrow> warn (WarnPublisherRoute pub (dpid env) e) s1
                     | None \<Rightarrow>
                         s1\<lparr>publisher_routes := publisher_routes s1 @ [(pub, route)]\<rparr>))))"

fun set_static_routes :: "env \<Rightarrow> node list \<Rightarrow> sink \<Rightarrow> sink" where
  "set_static_routes env [] s = s"
| "set_static_routes env (pub # pubs) s = set_static_routes env pubs (set_static_route env pub s)"

text \<open>\<open>on_start\<close>: the RideD object is built from the stored parameters, the maintenance
  timer is set, and the static routes are installed. The call of the superclass's
  \<open>on_start\<close> at the end is outside the repository and left out.\<close>

definition on_start :: "env \<Rightarrow> sink \<Rightarrow> (exn + unit) \<times> sink" where
  "on_start env s =
     (case rided s of
        NoRideD \<Rightarrow> (Inr (), s)
      | RideDBuilt \<Rightarrow> (Inl AssertionError, s)
      | RideDParams \<Rightarrow>
          (case new_RideD env of
             Some e \<Rightarrow> (Inl e, s)
           | None \<Rightarrow>
               (let s1 = s\<lparr>rided := RideDBuilt\<rparr>;
                    s2 = s1\<lparr>timers := timers s1 @ [maintenance_interval s1]\<rparr>
                in case publishers s2 of
                     None \<Rightarrow> (Inl AssertionError, s2)
                   | Some pubs \<Rightarrow> (Inr (), set_static_routes env pubs s2))))"

subsection \<open>Runs of the sink\<close>

text \<open>The entry points by which the sink is driven after its construction. An exception
  that leaves an entry point leaves the sink as it was changed up to there.\<close>

datatype call =
    OnStart
  | ProcessSubscription topic address
  | CoapSubscription coap_request
  | SendEvent event

fun step :: "env \<Rightarrow> sink \<Rightarrow> call \<Rightarrow> sink" where
  "step env s OnStart = snd (on_start env s)"
| "step env s (ProcessSubscription t h) = snd (process_subscription env t h s)"
| "step env s (CoapSubscription req) = snd (process_coap_subscription env req s)"
| "step env s (SendEvent ev) = snd (send_event env ev s)"

definition run :: "env \<Rightarrow> sink \<Rightarrow> call list \<Rightarrow> sink" where
  "run env s calls = foldl (step env) s calls"

subsection \<open>A concrete environment\<close>

text \<open>An environment in which every collaborator answers: hosts resolve to themselves,
  every path exists, every send is accepted. The theorems below are instantiated on it and
  on variants of it in which one collaborator raises.\<close>

definition plain_env :: env where
  "plain_env =
     \<lparr>SEISMIC_ALERT_TOPIC = ''seismic_alert'',
      encode_event = data,
      put = (\<lambda>r. None),
      new_RideD = None,
      dpid = ''s0'',
      get_best_multicast_address = (\<lambda>t. Inr ''224.0.0.1''),
      get_host_by_ip = (\<lambda>a. Inr a),
      get_path = (\<lambda>a b. Inr [a, b]),
      add_subscriber = (\<lambda>n t. None),
      build_flow_rules_from_path = (\<lambda>r. Inr r),
      install_flow_rule = (\<lambda>r. None),
      set_publisher_route = (\<lambda>n r. None)\<rparr>"

definition unicast_sink :: sink where
  "unicast_sink = init [''seismic_alert''] False 5683 2 None"

definition multicast_sink :: sink where
  "multicast_sink = snd (on_start plain_env (init [''seismic_alert''] True 5683 2 (Some [])))"

text \<open>The same environment, except that the topology manager finds no path.\<close>

definition no_path_env :: env where
  "no_path_env = plain_env\<lparr>get_path := (\<lambda>a b. Inl KeyError)\<rparr>"

text \<open>Environments in which the lookup of a multicast address raises, and in which the
  CoAP client raises on every send or on the sends to one address.\<close>

definition no_tree_env :: env where
  "no_tree_env = plain_env\<lparr>get_best_multicast_address := (\<lambda>t. Inl KeyError)\<rparr>"

definition unreadable_tree_env :: env where
  "unreadable_tree_env = plain_env\<lparr>get_best_multicast_address := (\<lambda>t. Inl IOError)\<rparr>"

definition timeout_tree_env :: env where
  "timeout_tree_env =
     plain_env\<lparr>get_best_multicast_address := (\<lambda>t. Inl (IOErrorSubclass ''socket.timeout''))\<rparr>"

definition refusing_env :: env where
  "refusing_env = plain_env\<lparr>put := (\<lambda>r. Some IOError)\<rparr>"

definition refusing_one_env :: env where
  "refusing_one_env =
     plain_env\<lparr>put := (\<lambda>r. if fst (server r) = ''10.0.0.3'' then Some IOError else None)\<rparr>"

text \<open>Unicast sinks with two and three subscribers of the alert topic, the sink of the
  scenario \<open>{"alerts": {"10.0.0.2", "10.0.0.3"}}\<close>, and an event.\<close>

definition two_subscribers :: sink where
  "two_subscribers =
     run plain_env unicast_sink
       [ProcessSubscription ''seismic_alert'' ''10.0.0.2'',
        ProcessSubscription ''seismic_alert'' ''10.0.0.3'']"

definition three_subscribers :: sink where
  "three_subscribers =
     run plain_env unicast_sink
       [ProcessSubscription ''seismic_alert'' ''10.0.0.2'',
        ProcessSubscription ''seismic_alert'' ''10.0.0.3'',
        ProcessSubscription ''seismic_alert'' ''10.0.0.4'']"

definition alerts_sink :: sink where
  "alerts_sink =
     run plain_env (init [''alerts''] False 5683 2 None)
       [ProcessSubscription ''alerts'' ''10.0.0.2'', ProcessSubscription ''alerts'' ''10.0.0.3'']"

definition alert_event :: event where
  "alert_event = \<lparr>topic = ''seismic_alert'', data = ''P''\<rparr>"

text \<open>The request that \<open>send_event\<close> makes for one destination address: the configured
  port, the path of the topic, the encoded event.\<close>

definition event_request :: "env \<Rightarrow> sink \<Rightarrow> event \<Rightarrow> address \<Rightarrow> request" where
  "event_request env s ev a =
     \<lparr>server = (a, port s), path = ''/events/'' @ topic ev, payload = encode_event env ev\<rparr>"

text \<open>An environment in which no path is found for the publisher \<open>pub2\<close>, and a
  multicast sink with three publishers, before \<open>on_start\<close>.\<close>

definition lost_publisher_env :: env where
  "lost_publisher_env =
     plain_env\<lparr>get_path := (\<lambda>a b. if a = ''pub2'' then Inl KeyError else Inr [a, b])\<rparr>"

definition fresh_multicast_sink :: sink where
  "fresh_multicast_sink = init [''seismic_alert''] True 5683 2 (Some [''pub1'', ''pub2'', ''pub3''])"

subsection \<open>The outcome of the steps for one publisher\<close>

text \<open>The first exception that installing the rules in order raises, if any.\<close>

fun install_failure :: "env \<Rightarrow> flow_rule list \<Rightarrow> exn option" where
  "install_failure env [] = None"
| "install_failure env (r # rs) =
     (case install_flow_rule env r of Some e \<Rightarrow> Some e | None \<Rightarrow> install_failure env rs)"

text \<open>What the steps for one publisher come to: the exception of the first step that
  raises, or the route when path computation, rule derivation, the installation of every
  rule and the registration of the route all return.\<close>

definition route_steps :: "env \<Rightarrow> node \<Rightarrow> exn + route" where
  "route_steps env pub =
     (case get_path env pub (dpid env) of
        Inl e \<Rightarrow> Inl e
      | Inr route \<Rightarrow>
          (case build_flow_rules_from_path env route of
             Inl e \<Rightarrow> Inl e
           | Inr flow_rules \<Rightarrow>
               (case install_failure env flow_rules of
                  Some e \<Rightarrow> Inl e
                | None \<Rightarrow>
                    (case set_publisher_route env pub route of
                       Some e \<Rightarrow> Inl e
                     | None \<Rightarrow> Inr route))))"

text \<open>The routes registered and the warnings logged for a list of publishers, each
  publisher taken by itself.\<close>

definition routes_of :: "env \<Rightarrow> node list \<Rightarrow> (node \<times> route) list" where
  "routes_of env pubs =
     concat (map (\<lambda>pub. case route_steps env pub of Inl e \<Rightarrow> [] | Inr route \<Rightarrow> [(pub, route)]) pubs)"

definition warnings_of :: "env \<Rightarrow> node list \<Rightarrow> log_entry list" where
  "warnings_of env pubs =
     concat (map (\<lambda>pub. case route_steps env pub of
                           Inl e \<Rightarrow> [WarnPublisherRoute pub (dpid env) e] | Inr route \<Rightarrow> []) pubs)"

section \<open>Properties\<close>

subsection \<open>The registry invariant\<close>

text \<open>Every key of the registry holds a set that is not empty, kept without repetition.\<close>

definition registry_ok :: "(topic \<rightharpoonup> address list) \<Rightarrow> bool" where
  "registry_ok d \<longleftrightarrow> (\<forall>t xs. d t = Some xs \<longrightarrow> xs \<noteq> [] \<and> distinct xs)"

lemma set_add_distinct: "distinct xs \<Longrightarrow> distinct (set_add xs h)"
  by (simp add: set_add_def)

lemma set_add_nonempty: "set_add xs h \<noteq> []"
  by (auto simp: set_add_def)

lemma registry_add_ok: "registry_ok d \<Longrightarrow> registry_ok (registry_add d t h)"
  by (auto simp: registry_ok_def registry_add_def setdefault_def set_add_nonempty set_add_distinct
      split: option.splits if_splits)

lemma registry_add_present:
  "d t = Some xs \<Longrightarrow> h \<in> set xs \<Longrightarrow> registry_add d t h = d"
  by (auto simp: registry_add_def setdefault_def set_add_def)

lemma subscribers_warn [simp]: "subscribers (warn w s) = subscribers s"
  by (simp add: warn_def)

lemma subscribers_process_subscription:
  "subscribers (snd (process_subscription env t h s)) = registry_add (subscribers s) t h"
  by (simp add: process_subscription_def Let_def split: rided.splits sum.splits option.splits)

lemma subscribers_process_coap_subscription:
  "subscribers (snd (process_coap_subscription env req s)) =
     (if req_payload req = SEISMIC_ALERT_TOPIC env
      then registry_add (subscribers s) (req_payload req) (fst (source req))
      else subscribers s)"
  using subscribers_process_subscription [of env "req_payload req" "fst (source req)" s]
  by (auto simp: process_coap_subscription_def Let_def split: prod.splits sum.splits)

lemma subscribers_sendto:
  "sendto env msg t a p s = (r, s') \<Longrightarrow> subscribers s' = subscribers s"
  by (auto simp: sendto_def Let_def)

lemma subscribers_sendto_each:
  "sendto_each env msg t as s = (r, s') \<Longrightarrow> subscribers s' = subscribers s"
proof (induction as arbitrary: s)
  case Nil
  then show ?case by simp
next
  case (Cons a as)
  obtain r1 s1 where st: "sendto env msg t a None s = (r1, s1)"
    by (cases "sendto env msg t a None s")
  then have eq: "subscribers s1 = subscribers s"
    by (rule subscribers_sendto)
  show ?case
  proof (cases r1)
    case None
    with st Cons.prems have "sendto_each env msg t as s1 = (r, s')" by simp
    then show ?thesis using Cons.IH eq by simp
  next
    case (Some e)
    with st Cons.prems eq show ?thesis by simp
  qed
qed

lemma subscribers_send_event [simp]: "subscribers (snd (send_event env ev s)) = subscribers s"
  by (auto simp: send_event_def Let_def
      split: prod.splits option.splits rided.splits sum.splits if_splits
      dest!: subscribers_sendto subscribers_sendto_each)

lemma subscribers_install_each:
  "install_each env rs s = (r, s') \<Longrightarrow> subscribers s' = subscribers s"
  by (induction rs arbitrary: s) (auto split: option.splits)

lemma subscribers_set_static_route [simp]:
  "subscribers (set_static_route env pub s) = subscribers s"
  by (auto simp: set_static_route_def split: sum.splits prod.splits option.splits
      dest!: subscribers_install_each)

lemma subscribers_set_static_routes [simp]:
  "subscribers (set_static_routes env pubs s) = subscribers s"
  by (induction pubs arbitrary: s) auto

lemma subscribers_on_start [simp]: "subscribers (snd (on_start env s)) = subscribers s"
  by (auto simp: on_start_def Let_def split: rided.splits option.splits)

lemma step_ok: "registry_ok (subscribers s) \<Longrightarrow> registry_ok (subscribers (step env s c))"
  by (cases c)
     (auto simp: subscribers_process_subscription subscribers_process_coap_subscription
        registry_add_ok)

lemma run_ok: "registry_ok (subscribers s) \<Longrightarrow> registry_ok (subscribers (run env s calls))"
  unfolding run_def by (induction calls arbitrary: s) (auto simp: step_ok)

lemma init_ok: "registry_ok (subscribers (init tts mc p i pubs))"
  by (simp add: init_def registry_ok_def)

text \<open>The registry after one subscription to a unicast sink.\<close>

lemma one_subscription:
  "subscribers (run plain_env unicast_sink [ProcessSubscription ''seismic_alert'' ''10.0.0.2''])
     = [''seismic_alert'' \<mapsto> [''10.0.0.2'']]"
  by (simp add: run_def unicast_sink_def init_def process_subscription_def registry_add_def
      setdefault_def set_add_def Let_def)

subsection \<open>Insertion into the registry\<close>

text \<open>
  Claim C7. Insertion into the registry is idempotent: inserting a (topic, address) pair a
  second time changes nothing, a call of \<open>process_subscription\<close> for a pair that is
  already present leaves the registry as it was, and after any sequence of calls on a
  freshly constructed sink no set of the registry holds an address twice.
\<close>

theorem registry_insert_idempotent:
  "registry_add (registry_add d t h) t h = registry_add d t h
   \<and> (subscribers s t = Some xs \<and> h \<in> set xs \<longrightarrow>
        subscribers (snd (process_subscription env t h s)) = subscribers s)
   \<and> (subscribers (run env (init tts mc p i pubs) calls) t' = Some ys \<longrightarrow> distinct ys)"
proof (intro conjI impI)
  show "registry_add (registry_add d t h) t h = registry_add d t h"
    by (auto simp: registry_add_def setdefault_def set_add_def split: option.splits)
next
  assume "subscribers s t = Some xs \<and> h \<in> set xs"
  then show "subscribers (snd (process_subscription env t h s)) = subscribers s"
    by (simp add: subscribers_process_subscription registry_add_present)
next
  assume a: "subscribers (run env (init tts mc p i pubs) calls) t' = Some ys"
  have "registry_ok (subscribers (run env (init tts mc p i pubs) calls))"
    by (rule run_ok [OF init_ok])
  with a show "distinct ys" by (simp add: registry_ok_def)
qed

theorem registry_insert_idempotent_witness:
  "subscribers (run plain_env unicast_sink [ProcessSubscription ''seismic_alert'' ''10.0.0.2''])
      ''seismic_alert'' = Some [''10.0.0.2'']
   \<and> ''10.0.0.2'' \<in> set [''10.0.0.2'']
   \<and> subscribers (snd (process_subscription plain_env ''seismic_alert'' ''10.0.0.2''
        (run plain_env unicast_sink [ProcessSubscription ''seismic_alert'' ''10.0.0.2''])))
      = subscribers (run plain_env unicast_sink [ProcessSubscription ''seismic_alert'' ''10.0.0.2''])
   \<and> distinct [''10.0.0.2'']"
  using registry_insert_idempotent [of Map.empty "''seismic_alert''" "''10.0.0.2''"
      "run plain_env unicast_sink [ProcessSubscription ''seismic_alert'' ''10.0.0.2'']"
      "[''10.0.0.2'']" plain_env "[''seismic_alert'']" False 5683 2 None
      "[ProcessSubscription ''seismic_alert'' ''10.0.0.2'']" "''seismic_alert''" "[''10.0.0.2'']"]
  by (simp add: one_subscription unicast_sink_def [symmetric])

text \<open>
  Claim C10. The registry of a freshly constructed sink is empty, and in every state
  that the sink reaches from there, every topic that is a key of the registry maps to a
  set that is not empty; so a topic is a key exactly when it has at least one subscriber.
\<close>

theorem registry_keys_nonempty:
  "subscribers (init tts mc p i pubs) = Map.empty
   \<and> (subscribers (run env (init tts mc p i pubs) calls) t = Some xs \<longrightarrow> xs \<noteq> [])
   \<and> (t \<in> dom (subscribers (run env (init tts mc p i pubs) calls)) \<longleftrightarrow>
        subscribers_get (run env (init tts mc p i pubs) calls) t \<noteq> [])"
proof -
  have ok: "registry_ok (subscribers (run env (init tts mc p i pubs) calls))"
    by (rule run_ok [OF init_ok])
  have "subscribers (init tts mc p i pubs) = Map.empty"
    by (simp add: init_def)
  moreover have "subscribers (run env (init tts mc p i pubs) calls) t = Some xs \<longrightarrow> xs \<noteq> []"
    using ok by (simp add: registry_ok_def)
  moreover have "t \<in> dom (subscribers (run env (init tts mc p i pubs) calls)) \<longleftrightarrow>
        subscribers_get (run env (init tts mc p i pubs) calls) t \<noteq> []"
    using ok by (auto simp: registry_ok_def subscribers_get_def split: option.splits)
  ultimately show ?thesis by (intro conjI)
qed

theorem registry_keys_nonempty_witness:
  "subscribers (run plain_env (init [''seismic_alert''] False 5683 2 None)
       [ProcessSubscription ''seismic_alert'' ''10.0.0.2'']) ''seismic_alert'' = Some [''10.0.0.2'']
   \<and> [''10.0.0.2''] \<noteq> ([] :: address list)"
proof -
  have h: "subscribers (run plain_env (init [''seismic_alert''] False 5683 2 None)
       [ProcessSubscription ''seismic_alert'' ''10.0.0.2'']) ''seismic_alert'' = Some [''10.0.0.2'']"
    by (simp add: one_subscription unicast_sink_def [symmetric])
  note inst = registry_keys_nonempty [of "[''seismic_alert'']" False 5683 2 None plain_env
      "[ProcessSubscription ''seismic_alert'' ''10.0.0.2'']" "''seismic_alert''" "[''10.0.0.2'']"]
  show ?thesis
    by (intro conjI) (fact h, rule inst [THEN conjunct2, THEN conjunct1, rule_format, OF h])
qed

subsection \<open>check\_available\<close>

text \<open>
  Claim C5. In every state that a freshly constructed sink reaches, \<open>check_available\<close>
  is true exactly when the event's topic is in \<open>topics_to_sink\<close> and at least one
  subscriber is registered for the topic; for a topic without subscribers it is false.
\<close>

theorem check_available_iff:
  "(check_available (run env (init tts mc p i pubs) calls) ev \<longleftrightarrow>
      topic ev \<in> topics_to_sink (run env (init tts mc p i pubs) calls)
      \<and> subscribers_get (run env (init tts mc p i pubs) calls) (topic ev) \<noteq> [])
   \<and> (subscribers_get (run env (init tts mc p i pubs) calls) (topic ev) = [] \<longrightarrow>
        \<not> check_available (run env (init tts mc p i pubs) calls) ev)"
proof -
  let ?S = "run env (init tts mc p i pubs) calls"
  have ok: "registry_ok (subscribers ?S)"
    by (rule run_ok [OF init_ok])
  have "topic ev \<in> dom (subscribers ?S) \<longleftrightarrow> subscribers_get ?S (topic ev) \<noteq> []"
    using ok by (auto simp: registry_ok_def subscribers_get_def split: option.splits)
  then show ?thesis by (simp add: check_available_def)
qed

theorem check_available_iff_witness:
  "subscribers_get (run plain_env (init [''seismic_alert''] False 5683 2 None) [])
       (topic \<lparr>topic = ''seismic_alert'', data = ''P''\<rparr>) = []
   \<and> \<not> check_available (run plain_env (init [''seismic_alert''] False 5683 2 None) [])
         \<lparr>topic = ''seismic_alert'', data = ''P''\<rparr>"
  using check_available_iff [of plain_env "[''seismic_alert'']" False 5683 2 None "[]"
      "\<lparr>topic = ''seismic_alert'', data = ''P''\<rparr>"]
  by (simp add: run_def init_def subscribers_get_def)

text \<open>The multicast sink after \<open>on_start\<close>.\<close>

lemma multicast_sink_eq:
  "multicast_sink = (init [''seismic_alert''] True 5683 2 (Some []))\<lparr>rided := RideDBuilt, timers := [2]\<rparr>"
  by (simp add: multicast_sink_def on_start_def init_def plain_env_def Let_def)

subsection \<open>process\_subscription\<close>

text \<open>
  Claim C1, as the code has it. With a RideD object, when the host does not resolve or no
  path to the server is found, \<open>process_subscription\<close> returns \<open>False\<close> and RideD is not
  told of the subscriber; the host has been added to the registry under the topic of the
  call before the check, and stays there.
\<close>

theorem process_subscription_unreachable:
  "rided s = RideDBuilt \<Longrightarrow>
   get_host_by_ip env h = Inl e
     \<or> (get_host_by_ip env h = Inr n \<and> get_path env n (dpid env) = Inl e) \<Longrightarrow>
   fst (process_subscription env t h s) = Inr False
   \<and> rided_subscribers (snd (process_subscription env t h s)) = rided_subscribers s
   \<and> subscribers (snd (process_subscription env t h s)) = registry_add (subscribers s) t h"
  by (auto simp: process_subscription_def Let_def warn_def)

theorem process_subscription_unreachable_witness:
  "rided multicast_sink = RideDBuilt
   \<and> get_host_by_ip no_path_env ''10.0.0.9'' = Inr ''10.0.0.9''
   \<and> get_path no_path_env ''10.0.0.9'' (dpid no_path_env) = Inl KeyError
   \<and> fst (process_subscription no_path_env ''seismic_alert'' ''10.0.0.9'' multicast_sink) = Inr False
   \<and> rided_subscribers (snd (process_subscription no_path_env ''seismic_alert'' ''10.0.0.9'' multicast_sink)) = []
   \<and> subscribers (snd (process_subscription no_path_env ''seismic_alert'' ''10.0.0.9'' multicast_sink))
        = [''seismic_alert'' \<mapsto> [''10.0.0.9'']]"
  using process_subscription_unreachable [of multicast_sink no_path_env "''10.0.0.9''" KeyError
      "''10.0.0.9''" "''seismic_alert''"]
  by (simp add: multicast_sink_eq no_path_env_def plain_env_def init_def registry_add_def
      setdefault_def set_add_def)

text \<open>
  Claim C1 as stated (the registry is left unchanged) fails: a host without a path to the
  server is rejected with \<open>False\<close>, and is in the registry afterwards.
\<close>

theorem process_subscription_unreachable_counterexample:
  "use_multicast multicast_sink \<and> rided multicast_sink = RideDBuilt
   \<and> get_path no_path_env ''10.0.0.9'' (dpid no_path_env) = Inl KeyError
   \<and> fst (process_subscription no_path_env ''seismic_alert'' ''10.0.0.9'' multicast_sink) = Inr False
   \<and> subscribers multicast_sink ''seismic_alert'' = None
   \<and> subscribers (snd (process_subscription no_path_env ''seismic_alert'' ''10.0.0.9'' multicast_sink))
        ''seismic_alert'' = Some [''10.0.0.9'']"
  by (simp add: multicast_sink_eq no_path_env_def plain_env_def init_def process_subscription_def
      registry_add_def setdefault_def set_add_def Let_def warn_def)

text \<open>
  Claim C8, as the code has it. After a call of \<open>process_subscription\<close> that returns
  \<open>True\<close>, the host is in the registry under the topic passed to the call, and the
  entries of all other topics are as before; with a RideD object, the resolved host has
  been registered with RideD under \<open>SEISMIC_ALERT_TOPIC\<close>, whatever the topic of the call.
\<close>

theorem process_subscription_request_topic:
  "fst (process_subscription env t h s) = Inr True \<Longrightarrow>
   h \<in> set (subscribers_get (snd (process_subscription env t h s)) t)
   \<and> (\<forall>t'. t' \<noteq> t \<longrightarrow> subscribers (snd (process_subscription env t h s)) t' = subscribers s t')
   \<and> (rided s = RideDBuilt \<longrightarrow>
        (\<exists>n. get_host_by_ip env h = Inr n
           \<and> rided_subscribers (snd (process_subscription env t h s))
               = rided_subscribers s @ [(n, SEISMIC_ALERT_TOPIC env)]))"
proof (intro conjI allI impI)
  show "h \<in> set (subscribers_get (snd (process_subscription env t h s)) t)"
    by (auto simp: subscribers_get_def subscribers_process_subscription registry_add_def
        setdefault_def set_add_def split: option.splits)
next
  fix t' assume "t' \<noteq> t"
  then show "subscribers (snd (process_subscription env t h s)) t' = subscribers s t'"
    by (auto simp: subscribers_process_subscription registry_add_def setdefault_def
        split: option.splits)
next
  assume ok: "fst (process_subscription env t h s) = Inr True" and b: "rided s = RideDBuilt"
  then show "\<exists>n. get_host_by_ip env h = Inr n
           \<and> rided_subscribers (snd (process_subscription env t h s))
               = rided_subscribers s @ [(n, SEISMIC_ALERT_TOPIC env)]"
    by (auto simp: process_subscription_def Let_def warn_def split: sum.splits option.splits)
qed

theorem process_subscription_request_topic_witness:
  "fst (process_subscription plain_env ''other_topic'' ''10.0.0.2'' multicast_sink) = Inr True
   \<and> ''10.0.0.2'' \<in> set (subscribers_get
         (snd (process_subscription plain_env ''other_topic'' ''10.0.0.2'' multicast_sink)) ''other_topic'')
   \<and> ''seismic_alert'' \<noteq> ''other_topic''
   \<and> subscribers (snd (process_subscription plain_env ''other_topic'' ''10.0.0.2'' multicast_sink))
        ''seismic_alert'' = None
   \<and> rided multicast_sink = RideDBuilt
   \<and> rided_subscribers (snd (process_subscription plain_env ''other_topic'' ''10.0.0.2'' multicast_sink))
        = [(''10.0.0.2'', ''seismic_alert'')]"
proof -
  have ok: "fst (process_subscription plain_env ''other_topic'' ''10.0.0.2'' multicast_sink) = Inr True"
    by (simp add: process_subscription_def multicast_sink_eq plain_env_def init_def Let_def)
  have ne: "''seismic_alert'' \<noteq> ''other_topic''" by simp
  have b: "rided multicast_sink = RideDBuilt" by (simp add: multicast_sink_eq)
  note inst = process_subscription_request_topic [OF ok]
  note f1 = inst [THEN conjunct1]
  note f2 = inst [THEN conjunct2, THEN conjunct1, rule_format, OF ne]
  note f3 = inst [THEN conjunct2, THEN conjunct2, rule_format, OF b]
  from f3 obtain n where n: "get_host_by_ip plain_env ''10.0.0.2'' = Inr n"
    and rs: "rided_subscribers (snd (process_subscription plain_env ''other_topic'' ''10.0.0.2'' multicast_sink))
               = rided_subscribers multicast_sink @ [(n, SEISMIC_ALERT_TOPIC plain_env)]"
    by (elim exE conjE)
  from n have "n = ''10.0.0.2''" by (simp add: plain_env_def)
  with rs have f4: "rided_subscribers (snd (process_subscription plain_env ''other_topic'' ''10.0.0.2'' multicast_sink))
        = [(''10.0.0.2'', ''seismic_alert'')]"
    by (simp add: plain_env_def multicast_sink_eq init_def)
  from f2 have f5: "subscribers (snd (process_subscription plain_env ''other_topic'' ''10.0.0.2'' multicast_sink))
        ''seismic_alert'' = None"
    by (simp add: multicast_sink_eq init_def)
  show ?thesis
    by (intro conjI) (fact ok, fact f1, fact ne, fact f5, fact b, fact f4)
qed

text \<open>
  Claim C8 as stated (the host is recorded under the alert topic, whatever the topic of
  the request) fails: a successful call with another topic records the host under that
  topic, and nothing under the alert topic.
\<close>

theorem process_subscription_request_topic_counterexample:
  "fst (process_subscription plain_env ''other_topic'' ''10.0.0.2'' unicast_sink) = Inr True
   \<and> SEISMIC_ALERT_TOPIC plain_env = ''seismic_alert''
   \<and> subscribers (snd (process_subscription plain_env ''other_topic'' ''10.0.0.2'' unicast_sink))
        ''seismic_alert'' = None
   \<and> subscribers (snd (process_subscription plain_env ''other_topic'' ''10.0.0.2'' unicast_sink))
        ''other_topic'' = Some [''10.0.0.2'']"
  by (simp add: unicast_sink_def plain_env_def init_def process_subscription_def
      registry_add_def setdefault_def set_add_def Let_def)

subsection \<open>The CoAP subscription endpoint\<close>

text \<open>
  Claim C9. A subscription request whose payload is not \<open>SEISMIC_ALERT_TOPIC\<close> fails with
  an AssertionError (no result is returned), and the sink, the registry included, is as
  before.
\<close>

theorem coap_subscription_wrong_topic:
  "req_payload req \<noteq> SEISMIC_ALERT_TOPIC env \<Longrightarrow>
   process_coap_subscription env req s = (Inl AssertionError, s)"
  by (simp add: process_coap_subscription_def Let_def split: prod.splits)

theorem coap_subscription_wrong_topic_witness:
  "req_payload \<lparr>source = (''10.0.0.2'', 40000), req_payload = ''other_topic''\<rparr>
      \<noteq> SEISMIC_ALERT_TOPIC plain_env
   \<and> process_coap_subscription plain_env
        \<lparr>source = (''10.0.0.2'', 40000), req_payload = ''other_topic''\<rparr> unicast_sink
      = (Inl AssertionError, unicast_sink)"
proof -
  have h: "req_payload \<lparr>source = (''10.0.0.2'', 40000), req_payload = ''other_topic''\<rparr>
      \<noteq> SEISMIC_ALERT_TOPIC plain_env"
    by (simp add: plain_env_def)
  show ?thesis using h coap_subscription_wrong_topic [OF h, of unicast_sink] by simp
qed

subsection \<open>Sending\<close>

lemma two_subscribers_eq:
  "two_subscribers =
     unicast_sink\<lparr>subscribers := [''seismic_alert'' \<mapsto> [''10.0.0.2'', ''10.0.0.3'']]\<rparr>"
  by (simp add: two_subscribers_def run_def unicast_sink_def init_def process_subscription_def
      registry_add_def setdefault_def set_add_def Let_def)

lemma three_subscribers_eq:
  "three_subscribers =
     unicast_sink\<lparr>subscribers := [''seismic_alert'' \<mapsto> [''10.0.0.2'', ''10.0.0.3'', ''10.0.0.4'']]\<rparr>"
  by (simp add: three_subscribers_def run_def unicast_sink_def init_def process_subscription_def
      registry_add_def setdefault_def set_add_def Let_def)

lemma alerts_sink_eq:
  "alerts_sink =
     (init [''alerts''] False 5683 2 None)\<lparr>subscribers := [''alerts'' \<mapsto> [''10.0.0.2'', ''10.0.0.3'']]\<rparr>"
  by (simp add: alerts_sink_def run_def init_def process_subscription_def
      registry_add_def setdefault_def set_add_def Let_def)

text \<open>The loop over the subscribers: when every send is accepted, one request per address
  is made, in order; when a send raises, the requests up to that one have been made and
  the exception leaves the loop.\<close>

lemma sendto_each_accepted:
  "\<forall>a \<in> set as. put env \<lparr>server = (a, port s), path = ''/events/'' @ t, payload = msg\<rparr> = None \<Longrightarrow>
   sendto_each env msg t as s =
     (None, s\<lparr>puts := puts s @ map (\<lambda>a. \<lparr>server = (a, port s), path = ''/events/'' @ t, payload = msg\<rparr>) as\<rparr>)"
proof (induction as arbitrary: s)
  case Nil
  then show ?case by simp
next
  case (Cons a as)
  let ?r = "\<lparr>server = (a, port s), path = ''/events/'' @ t, payload = msg\<rparr>"
  let ?s1 = "s\<lparr>puts := puts s @ [?r]\<rparr>"
  have acc: "put env ?r = None" using Cons.prems by simp
  have st: "sendto env msg t a None s = (None, ?s1)"
    using acc by (simp add: sendto_def Let_def)
  have rest: "\<forall>x \<in> set as. put env \<lparr>server = (x, port ?s1), path = ''/events/'' @ t, payload = msg\<rparr> = None"
    using Cons.prems by simp
  have "sendto_each env msg t (a # as) s = sendto_each env msg t as ?s1"
    using st by simp
  also have "\<dots> = (None, ?s1\<lparr>puts := puts ?s1 @ map (\<lambda>a. \<lparr>server = (a, port ?s1), path = ''/events/'' @ t, payload = msg\<rparr>) as\<rparr>)"
    by (rule Cons.IH [OF rest])
  finally show ?case by simp
qed

lemma sendto_each_refused:
  assumes "\<forall>a \<in> set pre. put env \<lparr>server = (a, port s), path = ''/events/'' @ t, payload = msg\<rparr> = None"
    and "put env \<lparr>server = (b, port s), path = ''/events/'' @ t, payload = msg\<rparr> = Some e"
  shows "sendto_each env msg t (pre @ b # post) s =
     (Some e, s\<lparr>puts := puts s @ map (\<lambda>a. \<lparr>server = (a, port s), path = ''/events/'' @ t, payload = msg\<rparr>) (pre @ [b])\<rparr>)"
  using assms
proof (induction pre arbitrary: s)
  case Nil
  then show ?case by (simp add: sendto_def Let_def)
next
  case (Cons a pre)
  let ?r = "\<lparr>server = (a, port s), path = ''/events/'' @ t, payload = msg\<rparr>"
  let ?s1 = "s\<lparr>puts := puts s @ [?r]\<rparr>"
  have acc: "put env ?r = None" using Cons.prems by simp
  have st: "sendto env msg t a None s = (None, ?s1)"
    using acc by (simp add: sendto_def Let_def)
  have rest: "\<forall>x \<in> set pre. put env \<lparr>server = (x, port ?s1), path = ''/events/'' @ t, payload = msg\<rparr> = None"
    using Cons.prems by simp
  have fl: "put env \<lparr>server = (b, port ?s1), path = ''/events/'' @ t, payload = msg\<rparr> = Some e"
    using Cons.prems by simp
  have "sendto_each env msg t ((a # pre) @ b # post) s = sendto_each env msg t (pre @ b # post) ?s1"
    using st by simp
  also have "\<dots> = (Some e, ?s1\<lparr>puts := puts ?s1 @ map (\<lambda>a. \<lparr>server = (a, port ?s1), path = ''/events/'' @ t, payload = msg\<rparr>) (pre @ [b])\<rparr>)"
    by (rule Cons.IH [OF rest fl])
  finally show ?case by simp
qed

lemma send_event_unicast:
  "\<not> use_multicast s \<Longrightarrow>
   send_event env ev s =
     (case sendto_each env (encode_event env ev) (topic ev) (subscribers_get s (topic ev))
             (s\<lparr>encoded := Suc (encoded s)\<rparr>) of
        (None, s1) \<Rightarrow> (Inr True, s1)
      | (Some e, s1) \<Rightarrow> (if isinstance_IOError e then (Inr False, warn (ErrorSend e) s1) else (Inl e, s1)))"
  by (simp add: send_event_def Let_def subscribers_get_def)

lemma send_event_multicast:
  "use_multicast s \<Longrightarrow> rided s = RideDBuilt \<Longrightarrow>
   send_event env ev s =
     (case (case get_best_multicast_address env (topic ev) of
              Inl e \<Rightarrow> (Some e, s\<lparr>encoded := Suc (encoded s)\<rparr>)
            | Inr a \<Rightarrow> sendto env (encode_event env ev) (topic ev) a None (s\<lparr>encoded := Suc (encoded s)\<rparr>)) of
        (None, s1) \<Rightarrow> (Inr True, s1)
      | (Some e, s1) \<Rightarrow> (if isinstance_IOError e then (Inr False, warn (ErrorSend e) s1) else (Inl e, s1)))"
  by (simp add: send_event_def Let_def)

lemma two_element_mset:
  "distinct xs \<Longrightarrow> set xs = {A, B} \<Longrightarrow> A \<noteq> B \<Longrightarrow> mset xs = {#A, B#}"
proof -
  assume d: "distinct xs" and s: "set xs = {A, B}" and ne: "A \<noteq> B"
  have "mset xs = mset_set (set xs)" using d by (simp add: mset_set_set)
  also have "\<dots> = {#A, B#}" using s ne by simp
  finally show ?thesis .
qed

text \<open>
  Claim C2, as the code has it. In multicast mode with a RideD object, when the lookup of
  the multicast address for the event's topic raises, no send is made; when the exception
  is an instance of \<open>IOError\<close> (of a class derived from it included), \<open>send_event\<close>
  catches it, logs one error record and returns \<open>False\<close>; any other exception is not
  caught, nothing is logged, and it leaves \<open>send_event\<close>.
\<close>

theorem send_event_no_multicast_address:
  "use_multicast s \<Longrightarrow> rided s = RideDBuilt \<Longrightarrow>
   get_best_multicast_address env (topic ev) = Inl e \<Longrightarrow>
   puts (snd (send_event env ev s)) = puts s
   \<and> (isinstance_IOError e \<longrightarrow>
        fst (send_event env ev s) = Inr False
        \<and> logged (snd (send_event env ev s)) = logged s @ [ErrorSend e])
   \<and> (\<not> isinstance_IOError e \<longrightarrow>
        fst (send_event env ev s) = Inl e
        \<and> logged (snd (send_event env ev s)) = logged s)"
  by (simp add: send_event_multicast warn_def)

theorem send_event_no_multicast_address_witness:
  "use_multicast multicast_sink \<and> rided multicast_sink = RideDBuilt
   \<and> get_best_multicast_address unreadable_tree_env (topic alert_event) = Inl IOError
   \<and> isinstance_IOError IOError
   \<and> puts (snd (send_event unreadable_tree_env alert_event multicast_sink)) = puts multicast_sink
   \<and> fst (send_event unreadable_tree_env alert_event multicast_sink) = Inr False
   \<and> logged (snd (send_event unreadable_tree_env alert_event multicast_sink))
        = logged multicast_sink @ [ErrorSend IOError]
   \<and> get_best_multicast_address timeout_tree_env (topic alert_event)
        = Inl (IOErrorSubclass ''socket.timeout'')
   \<and> isinstance_IOError (IOErrorSubclass ''socket.timeout'')
   \<and> puts (snd (send_event timeout_tree_env alert_event multicast_sink)) = puts multicast_sink
   \<and> fst (send_event timeout_tree_env alert_event multicast_sink) = Inr False
   \<and> logged (snd (send_event timeout_tree_env alert_event multicast_sink))
        = logged multicast_sink @ [ErrorSend (IOErrorSubclass ''socket.timeout'')]
   \<and> get_best_multicast_address no_tree_env (topic alert_event) = Inl KeyError
   \<and> \<not> isinstance_IOError KeyError
   \<and> puts (snd (send_event no_tree_env alert_event multicast_sink)) = puts multicast_sink
   \<and> fst (send_event no_tree_env alert_event multicast_sink) = Inl KeyError
   \<and> logged (snd (send_event no_tree_env alert_event multicast_sink)) = logged multicast_sink"
proof -
  have m: "use_multicast multicast_sink" and b: "rided multicast_sink = RideDBuilt"
    by (simp_all add: multicast_sink_eq init_def)
  have io: "get_best_multicast_address unreadable_tree_env (topic alert_event) = Inl IOError"
    by (simp add: unreadable_tree_env_def)
  have tm: "get_best_multicast_address timeout_tree_env (topic alert_event)
        = Inl (IOErrorSubclass ''socket.timeout'')"
    by (simp add: timeout_tree_env_def)
  have ke: "get_best_multicast_address no_tree_env (topic alert_event) = Inl KeyError"
    by (simp add: no_tree_env_def)
  have c1: "isinstance_IOError IOError" by simp
  have c2: "isinstance_IOError (IOErrorSubclass ''socket.timeout'')" by simp
  have c3: "\<not> isinstance_IOError KeyError" by simp
  note i1 = send_event_no_multicast_address [OF m b io]
  note i2 = send_event_no_multicast_address [OF m b tm]
  note i3 = send_event_no_multicast_address [OF m b ke]
  note r1 = i1 [THEN conjunct2, THEN conjunct1, rule_format, OF c1]
  note r2 = i2 [THEN conjunct2, THEN conjunct1, rule_format, OF c2]
  note r3 = i3 [THEN conjunct2, THEN conjunct2, rule_format, OF c3]
  show ?thesis
    by (intro conjI)
       (fact m, fact b,
        fact io, fact c1, fact i1 [THEN conjunct1], fact r1 [THEN conjunct1], fact r1 [THEN conjunct2],
        fact tm, fact c2, fact i2 [THEN conjunct1], fact r2 [THEN conjunct1], fact r2 [THEN conjunct2],
        fact ke, fact c3, fact i3 [THEN conjunct1], fact r3 [THEN conjunct1], fact r3 [THEN conjunct2])
qed

text \<open>
  Claim C2 as stated (\<open>False\<close> is returned and nothing is raised, however the lookup
  fails) fails: a lookup that raises a KeyError, which is not an \<open>IOError\<close>, makes
  \<open>send_event\<close> raise it.
\<close>

theorem send_event_no_multicast_address_counterexample:
  "use_multicast multicast_sink \<and> rided multicast_sink = RideDBuilt
   \<and> get_best_multicast_address no_tree_env ''seismic_alert'' = Inl KeyError
   \<and> fst (send_event no_tree_env \<lparr>topic = ''seismic_alert'', data = ''quake''\<rparr> multicast_sink)
        = Inl KeyError"
  by (simp add: send_event_def multicast_sink_eq init_def no_tree_env_def Let_def)

text \<open>
  Claim C3, as the code has it. In unicast mode, an IOError (an instance of \<open>IOError\<close> or
  of a class derived from it) raised by the send to one subscriber ends the loop: requests have been made for the addresses visited before it
  and for that one, none for the addresses after it, and \<open>send_event\<close> returns \<open>False\<close>.
\<close>

theorem send_event_unicast_failure:
  "\<not> use_multicast s \<Longrightarrow> subscribers_get s (topic ev) = pre @ b # post \<Longrightarrow>
   \<forall>a \<in> set pre. put env (event_request env s ev a) = None \<Longrightarrow>
   put env (event_request env s ev b) = Some e \<Longrightarrow> isinstance_IOError e \<Longrightarrow>
   fst (send_event env ev s) = Inr False
   \<and> puts (snd (send_event env ev s)) = puts s @ map (event_request env s ev) (pre @ [b])"
proof -
  assume u: "\<not> use_multicast s" and l: "subscribers_get s (topic ev) = pre @ b # post"
    and acc: "\<forall>a \<in> set pre. put env (event_request env s ev a) = None"
    and ref: "put env (event_request env s ev b) = Some e"
    and io: "isinstance_IOError e"
  let ?s0 = "s\<lparr>encoded := Suc (encoded s)\<rparr>"
  have "sendto_each env (encode_event env ev) (topic ev) (pre @ b # post) ?s0 =
     (Some e, ?s0\<lparr>puts := puts ?s0 @ map (\<lambda>a. \<lparr>server = (a, port ?s0), path = ''/events/'' @ topic ev,
        payload = encode_event env ev\<rparr>) (pre @ [b])\<rparr>)"
    by (rule sendto_each_refused) (use acc ref in \<open>simp_all add: event_request_def\<close>)
  then show ?thesis
    using u l io by (simp add: send_event_unicast warn_def event_request_def [abs_def])
qed

theorem send_event_unicast_failure_witness:
  "\<not> use_multicast three_subscribers
   \<and> subscribers_get three_subscribers (topic alert_event) = [''10.0.0.2''] @ ''10.0.0.3'' # [''10.0.0.4'']
   \<and> put refusing_one_env (event_request refusing_one_env three_subscribers alert_event ''10.0.0.2'') = None
   \<and> put refusing_one_env (event_request refusing_one_env three_subscribers alert_event ''10.0.0.3'') = Some IOError
   \<and> isinstance_IOError IOError
   \<and> fst (send_event refusing_one_env alert_event three_subscribers) = Inr False
   \<and> map server (puts (snd (send_event refusing_one_env alert_event three_subscribers)))
        = [(''10.0.0.2'', 5683), (''10.0.0.3'', 5683)]"
proof -
  have u: "\<not> use_multicast three_subscribers"
    by (simp add: three_subscribers_eq unicast_sink_def init_def)
  have l: "subscribers_get three_subscribers (topic alert_event) = [''10.0.0.2''] @ ''10.0.0.3'' # [''10.0.0.4'']"
    by (simp add: three_subscribers_eq subscribers_get_def alert_event_def)
  have acc: "\<forall>a \<in> set [''10.0.0.2'']. put refusing_one_env (event_request refusing_one_env three_subscribers alert_event a) = None"
    by (simp add: refusing_one_env_def event_request_def)
  have ref: "put refusing_one_env (event_request refusing_one_env three_subscribers alert_event ''10.0.0.3'') = Some IOError"
    by (simp add: refusing_one_env_def event_request_def)
  have acc1: "put refusing_one_env (event_request refusing_one_env three_subscribers alert_event ''10.0.0.2'') = None"
    by (simp add: refusing_one_env_def event_request_def)
  have io: "isinstance_IOError IOError" by simp
  note inst = send_event_unicast_failure [OF u l acc ref io]
  have p: "puts three_subscribers = []" and q: "port three_subscribers = 5683"
    by (simp_all add: three_subscribers_eq unicast_sink_def init_def)
  have sent: "map server (puts (snd (send_event refusing_one_env alert_event three_subscribers)))
        = [(''10.0.0.2'', 5683), (''10.0.0.3'', 5683)]"
    by (simp add: inst [THEN conjunct2] p q event_request_def)
  show ?thesis
    by (intro conjI) (fact u, fact l, fact acc1, fact ref, fact io, fact inst [THEN conjunct1], fact sent)
qed

text \<open>
  Claim C3 as stated (a send is still made to every registered address) fails: with two
  subscribers and a client that raises an IOError, one request is made, whichever address
  the loop visits first, and the other subscriber is never sent to.
\<close>

theorem send_event_unicast_failure_counterexample:
  "\<not> use_multicast two_subscribers
   \<and> subscribers two_subscribers ''seismic_alert'' = Some [''10.0.0.2'', ''10.0.0.3'']
   \<and> puts two_subscribers = []
   \<and> fst (send_event refusing_env \<lparr>topic = ''seismic_alert'', data = ''quake''\<rparr> two_subscribers) = Inr False
   \<and> map server (puts (snd (send_event refusing_env \<lparr>topic = ''seismic_alert'', data = ''quake''\<rparr>
        two_subscribers))) = [(''10.0.0.2'', 5683)]"
  by (simp add: two_subscribers_eq unicast_sink_def init_def send_event_def subscribers_get_def
      sendto_def refusing_env_def plain_env_def warn_def Let_def)

text \<open>
  Claim C4, as the code has it. In unicast mode, with the set \<open>{A, B}\<close> of two addresses
  registered for the event's topic, and when the client accepts both sends, \<open>send_event\<close>
  makes exactly two requests, one to \<open>(A, port)\<close> and one to \<open>(B, port)\<close>, both with the
  payload of the one call of \<open>encode_event\<close>, and returns \<open>True\<close>.
\<close>

theorem send_event_unicast_two:
  "\<not> use_multicast s \<Longrightarrow> subscribers s (topic ev) = Some xs \<Longrightarrow>
   distinct xs \<Longrightarrow> set xs = {A, B} \<Longrightarrow> A \<noteq> B \<Longrightarrow>
   put env (event_request env s ev A) = None \<Longrightarrow>
   put env (event_request env s ev B) = None \<Longrightarrow>
   fst (send_event env ev s) = Inr True
   \<and> puts (snd (send_event env ev s)) = puts s @ map (event_request env s ev) xs
   \<and> mset (map (event_request env s ev) xs) = {#event_request env s ev A, event_request env s ev B#}
   \<and> length xs = 2
   \<and> encoded (snd (send_event env ev s)) = encoded s + 1"
proof -
  assume u: "\<not> use_multicast s" and l: "subscribers s (topic ev) = Some xs"
    and d: "distinct xs" and st: "set xs = {A, B}" and ne: "A \<noteq> B"
    and pa: "put env (event_request env s ev A) = None"
    and pb: "put env (event_request env s ev B) = None"
  let ?s0 = "s\<lparr>encoded := Suc (encoded s)\<rparr>"
  have ms: "mset xs = {#A, B#}" by (rule two_element_mset [OF d st ne])
  have len: "length xs = 2" using ms by (metis size_mset size_add_mset size_empty numeral_2_eq_2)
  have g: "subscribers_get s (topic ev) = xs" using l by (simp add: subscribers_get_def)
  have acc: "\<forall>a \<in> set xs. put env \<lparr>server = (a, port ?s0), path = ''/events/'' @ topic ev,
        payload = encode_event env ev\<rparr> = None"
    using st pa pb by (simp add: event_request_def)
  have se: "sendto_each env (encode_event env ev) (topic ev) xs ?s0 =
     (None, ?s0\<lparr>puts := puts ?s0 @ map (\<lambda>a. \<lparr>server = (a, port ?s0), path = ''/events/'' @ topic ev,
        payload = encode_event env ev\<rparr>) xs\<rparr>)"
    by (rule sendto_each_accepted [OF acc])
  have r: "fst (send_event env ev s) = Inr True"
    and p: "puts (snd (send_event env ev s)) = puts s @ map (event_request env s ev) xs"
    and e: "encoded (snd (send_event env ev s)) = encoded s + 1"
    using u g se by (simp_all add: send_event_unicast event_request_def [abs_def])
  have m: "mset (map (event_request env s ev) xs) = {#event_request env s ev A, event_request env s ev B#}"
    by (simp only: mset_map ms image_mset_add_mset image_mset_empty)
  show ?thesis using r p m len e by simp
qed

theorem send_event_unicast_two_witness:
  "\<not> use_multicast two_subscribers
   \<and> subscribers two_subscribers (topic alert_event) = Some [''10.0.0.2'', ''10.0.0.3'']
   \<and> distinct [''10.0.0.2'', ''10.0.0.3'']
   \<and> set [''10.0.0.2'', ''10.0.0.3''] = {''10.0.0.2'', ''10.0.0.3''}
   \<and> ''10.0.0.2'' \<noteq> ''10.0.0.3''
   \<and> put plain_env (event_request plain_env two_subscribers alert_event ''10.0.0.2'') = None
   \<and> put plain_env (event_request plain_env two_subscribers alert_event ''10.0.0.3'') = None
   \<and> fst (send_event plain_env alert_event two_subscribers) = Inr True
   \<and> puts (snd (send_event plain_env alert_event two_subscribers)) =
        [\<lparr>server = (''10.0.0.2'', 5683), path = ''/events/seismic_alert'', payload = ''P''\<rparr>,
         \<lparr>server = (''10.0.0.3'', 5683), path = ''/events/seismic_alert'', payload = ''P''\<rparr>]
   \<and> encoded (snd (send_event plain_env alert_event two_subscribers)) = 1"
proof -
  have u: "\<not> use_multicast two_subscribers"
    by (simp add: two_subscribers_eq unicast_sink_def init_def)
  have l: "subscribers two_subscribers (topic alert_event) = Some [''10.0.0.2'', ''10.0.0.3'']"
    by (simp add: two_subscribers_eq alert_event_def)
  have d: "distinct [''10.0.0.2'', ''10.0.0.3'']" by simp
  have st: "set [''10.0.0.2'', ''10.0.0.3''] = {''10.0.0.2'', ''10.0.0.3''}" by simp
  have ne: "''10.0.0.2'' \<noteq> ''10.0.0.3''" by simp
  have pa: "put plain_env (event_request plain_env two_subscribers alert_event ''10.0.0.2'') = None"
    by (simp add: plain_env_def)
  have pb: "put plain_env (event_request plain_env two_subscribers alert_event ''10.0.0.3'') = None"
    by (simp add: plain_env_def)
  note inst = send_event_unicast_two [OF u l d st ne pa pb]
  have p: "puts two_subscribers = []" and q: "port two_subscribers = 5683"
    and e: "encoded two_subscribers = 0"
    by (simp_all add: two_subscribers_eq unicast_sink_def init_def)
  have sent: "puts (snd (send_event plain_env alert_event two_subscribers)) =
        [\<lparr>server = (''10.0.0.2'', 5683), path = ''/events/seismic_alert'', payload = ''P''\<rparr>,
         \<lparr>server = (''10.0.0.3'', 5683), path = ''/events/seismic_alert'', payload = ''P''\<rparr>]"
    unfolding inst [THEN conjunct2, THEN conjunct1]
    by (simp add: p q event_request_def alert_event_def plain_env_def)
  have once: "encoded (snd (send_event plain_env alert_event two_subscribers)) = 1"
    by (simp add: inst [THEN conjunct2, THEN conjunct2, THEN conjunct2, THEN conjunct2] e)
  show ?thesis
    by (intro conjI)
       (fact u, fact l, fact d, fact st, fact ne, fact pa, fact pb, fact inst [THEN conjunct1],
        fact sent, fact once)
qed

text \<open>
  Claim C4 as stated (two requests for every event) fails when the client raises on the
  first send: one request is made.
\<close>

theorem send_event_unicast_two_counterexample:
  "\<not> use_multicast alerts_sink
   \<and> subscribers alerts_sink ''alerts'' = Some [''10.0.0.2'', ''10.0.0.3'']
   \<and> puts alerts_sink = []
   \<and> length (puts (snd (send_event refusing_env \<lparr>topic = ''alerts'', data = ''P''\<rparr> alerts_sink))) = 1"
  by (simp add: alerts_sink_eq init_def send_event_def subscribers_get_def
      sendto_def refusing_env_def plain_env_def warn_def Let_def)

subsection \<open>on\_start\<close>

lemma install_each_result:
  "install_each env rs s = (r, s') \<Longrightarrow>
   r = install_failure env rs \<and> publisher_routes s' = publisher_routes s \<and> logged s' = logged s"
  by (induction rs arbitrary: s) (auto split: option.splits)

lemma set_static_route_effect:
  "publisher_routes (set_static_route env pub s) = publisher_routes s @ routes_of env [pub]
   \<and> logged (set_static_route env pub s) = logged s @ warnings_of env [pub]"
  by (auto simp: set_static_route_def route_steps_def routes_of_def warnings_of_def warn_def
      split: sum.splits prod.splits option.splits dest!: install_each_result)

lemma routes_of_Cons: "routes_of env (pub # pubs) = routes_of env [pub] @ routes_of env pubs"
  by (simp add: routes_of_def)

lemma warnings_of_Cons: "warnings_of env (pub # pubs) = warnings_of env [pub] @ warnings_of env pubs"
  by (simp add: warnings_of_def)

lemma set_static_routes_effect:
  "publisher_routes (set_static_routes env pubs s) = publisher_routes s @ routes_of env pubs
   \<and> logged (set_static_routes env pubs s) = logged s @ warnings_of env pubs"
proof (induction pubs arbitrary: s)
  case Nil
  then show ?case by (simp add: routes_of_def warnings_of_def)
next
  case (Cons pub pubs)
  show ?case
    using Cons.IH [of "set_static_route env pub s"] set_static_route_effect [of env pub s]
    by (simp add: routes_of_Cons [of env pub pubs] warnings_of_Cons [of env pub pubs])
qed

text \<open>
  Claim C6. In the pass of \<open>on_start\<close> over the configured publishers, an exception raised
  by path computation, rule derivation, rule installation or route registration for one
  publisher is caught and logged as a warning, and the pass goes on: \<open>on_start\<close> returns,
  and the routes registered and the warnings logged are those of every publisher taken by
  itself. So the route of every publisher whose steps all succeed is registered with RideD,
  and every publisher with a failing step has its warning.
\<close>

theorem on_start_static_routes:
  "rided s = RideDParams \<Longrightarrow> new_RideD env = None \<Longrightarrow> publishers s = Some pubs \<Longrightarrow>
   fst (on_start env s) = Inr ()
   \<and> publisher_routes (snd (on_start env s)) = publisher_routes s @ routes_of env pubs
   \<and> logged (snd (on_start env s)) = logged s @ warnings_of env pubs
   \<and> (\<forall>pub route. pub \<in> set pubs \<and> route_steps env pub = Inr route \<longrightarrow>
         (pub, route) \<in> set (publisher_routes (snd (on_start env s))))
   \<and> (\<forall>pub e. pub \<in> set pubs \<and> route_steps env pub = Inl e \<longrightarrow>
         WarnPublisherRoute pub (dpid env) e \<in> set (logged (snd (on_start env s))))"
proof -
  assume p: "rided s = RideDParams" and n: "new_RideD env = None" and ps: "publishers s = Some pubs"
  let ?s2 = "s\<lparr>rided := RideDBuilt, timers := timers s @ [maintenance_interval s]\<rparr>"
  have os: "on_start env s = (Inr (), set_static_routes env pubs ?s2)"
    using p n ps by (simp add: on_start_def Let_def)
  have eff: "publisher_routes (set_static_routes env pubs ?s2) = publisher_routes s @ routes_of env pubs
     \<and> logged (set_static_routes env pubs ?s2) = logged s @ warnings_of env pubs"
    using set_static_routes_effect [of env pubs ?s2] by simp
  have r: "\<forall>pub route. pub \<in> set pubs \<and> route_steps env pub = Inr route \<longrightarrow>
         (pub, route) \<in> set (routes_of env pubs)"
    by (force simp: routes_of_def)
  have w: "\<forall>pub e. pub \<in> set pubs \<and> route_steps env pub = Inl e \<longrightarrow>
         WarnPublisherRoute pub (dpid env) e \<in> set (warnings_of env pubs)"
    by (force simp: warnings_of_def)
  show ?thesis using os eff r w by simp
qed

theorem on_start_static_routes_witness:
  "rided fresh_multicast_sink = RideDParams
   \<and> new_RideD lost_publisher_env = None
   \<and> publishers fresh_multicast_sink = Some [''pub1'', ''pub2'', ''pub3'']
   \<and> fst (on_start lost_publisher_env fresh_multicast_sink) = Inr ()
   \<and> route_steps lost_publisher_env ''pub2'' = Inl KeyError
   \<and> route_steps lost_publisher_env ''pub3'' = Inr [''pub3'', ''s0'']
   \<and> publisher_routes (snd (on_start lost_publisher_env fresh_multicast_sink))
        = [(''pub1'', [''pub1'', ''s0'']), (''pub3'', [''pub3'', ''s0''])]
   \<and> logged (snd (on_start lost_publisher_env fresh_multicast_sink))
        = [WarnPublisherRoute ''pub2'' ''s0'' KeyError]"
proof -
  have p: "rided fresh_multicast_sink = RideDParams"
    by (simp add: fresh_multicast_sink_def init_def)
  have n: "new_RideD lost_publisher_env = None"
    by (simp add: lost_publisher_env_def plain_env_def)
  have ps: "publishers fresh_multicast_sink = Some [''pub1'', ''pub2'', ''pub3'']"
    by (simp add: fresh_multicast_sink_def init_def)
  note inst = on_start_static_routes [OF p n ps]
  have s1: "route_steps lost_publisher_env ''pub1'' = Inr [''pub1'', ''s0'']"
    by (simp add: route_steps_def lost_publisher_env_def plain_env_def)
  have s2: "route_steps lost_publisher_env ''pub2'' = Inl KeyError"
    by (simp add: route_steps_def lost_publisher_env_def plain_env_def)
  have s3: "route_steps lost_publisher_env ''pub3'' = Inr [''pub3'', ''s0'']"
    by (simp add: route_steps_def lost_publisher_env_def plain_env_def)
  have d: "dpid lost_publisher_env = ''s0''"
    by (simp add: lost_publisher_env_def plain_env_def)
  have e: "publisher_routes fresh_multicast_sink = []" "logged fresh_multicast_sink = []"
    by (simp_all add: fresh_multicast_sink_def init_def)
  have rs: "publisher_routes (snd (on_start lost_publisher_env fresh_multicast_sink))
        = [(''pub1'', [''pub1'', ''s0'']), (''pub3'', [''pub3'', ''s0''])]"
    unfolding inst [THEN conjunct2, THEN conjunct1]
    by (simp add: routes_of_def s1 s2 s3 e)
  have ws: "logged (snd (on_start lost_publisher_env fresh_multicast_sink))
        = [WarnPublisherRoute ''pub2'' ''s0'' KeyError]"
    unfolding inst [THEN conjunct2, THEN conjunct2, THEN conjunct1]
    by (simp add: warnings_of_def s1 s2 s3 e d)
  show ?thesis
    by (intro conjI)
       (fact p, fact n, fact ps, fact inst [THEN conjunct1], fact s2, fact s3, fact rs, fact ws)
qed

end
